theory Spec2Isabelle
  imports Main "HOL-Library.Word" "HOL-Library.AList"
begin

unbundle bit_operations_syntax

section \<open>Conmmon.h: constants and SizeClass\<close>

text \<open>
  \<open>size_t\<close> is the 64-bit unsigned integer of the Linux target the repository builds for
  (the templates are instantiated with \<open>unsigned long\<close>); arithmetic on it wraps.
  A \<open>void *\<close> is a 64-bit address, with \<open>0\<close> for \<open>nullptr\<close>.
\<close>

type_synonym size_t = "64 word"
type_synonym addr = "64 word"

definition ALIGNMENT :: size_t where
  "ALIGNMENT = 8"

definition MAX_BYTES :: size_t where
  "MAX_BYTES = 256 * 1024"

definition FREE_LIST_SIZE :: size_t where
  "FREE_LIST_SIZE = MAX_BYTES div ALIGNMENT"

definition SPAN_PAGES :: size_t where
  "SPAN_PAGES = 8"

definition PAGE_SIZE :: size_t where
  "PAGE_SIZE = 4096"

text \<open>\<open>SizeClass::roundUp\<close>: \<open>(bytes + ALIGNMENT - 1) & ~(ALIGNMENT - 1)\<close>.\<close>

definition roundUp :: "size_t \<Rightarrow> size_t" where
  "roundUp bytes = (bytes + ALIGNMENT - 1) AND NOT (ALIGNMENT - 1)"

text \<open>\<open>SizeClass::getIndex\<close>: \<open>bytes = max(bytes, ALIGNMENT)\<close>, then
  \<open>(bytes + ALIGNMENT - 1) / ALIGNMENT - 1\<close>.\<close>

definition getIndex :: "size_t \<Rightarrow> size_t" where
  "getIndex bytes = (let b = max bytes ALIGNMENT in (b + ALIGNMENT - 1) div ALIGNMENT - 1)"

section \<open>Errors\<close>

text \<open>
  The C++ has no checked errors; what is undefined behaviour there is a value here, so
  that no model function silently continues past it.
\<close>

datatype error = NullDeref | DanglingSpan | DivByZero

section \<open>ThreadCache.h: batch size\<close>

text \<open>
  \<open>ThreadCache::getBatchNum\<close>. The last line of the source is
  \<open>std::max(sizeof(1), std::min(maxNum, baseNum))\<close>; \<open>sizeof(1)\<close> is the size of an
  \<open>int\<close>, 4 on the target. \<open>MAX_BATCH_SIZE / size\<close> divides by the argument.
\<close>

definition MAX_BATCH_SIZE :: size_t where
  "MAX_BATCH_SIZE = 4 * 1024"

definition sizeof_int :: size_t where
  "sizeof_int = 4"

definition baseNum :: "size_t \<Rightarrow> size_t" where
  "baseNum sz =
     (if sz \<le> 32 then 64
      else if sz \<le> 64 then 32
      else if sz \<le> 128 then 16
      else if sz \<le> 256 then 8
      else if sz \<le> 512 then 4
      else if sz \<le> 1024 then 2
      else 1)"

definition getBatchNum :: "size_t \<Rightarrow> error + size_t" where
  "getBatchNum sz =
     (if sz = 0 then Inl DivByZero
      else let maxNum = max 1 (MAX_BATCH_SIZE div sz)
           in Inr (max sizeof_int (min maxNum (baseNum sz))))"

section \<open>Block memory\<close>

text \<open>
  A free block keeps the address of the next free block in its first eight bytes
  (\<open>*reinterpret_cast<void **>(p)\<close>). \<open>memory\<close> gives, for the address of a block, the
  pointer stored there. Blocks are 8-byte aligned and at least \<open>ALIGNMENT\<close> bytes long, so
  the link cells of different blocks do not overlap.
\<close>

type_synonym memory = "addr \<Rightarrow> addr"

section \<open>PageCache.h\<close>

text \<open>
  A \<open>Span *\<close> is \<open>None\<close> for \<open>nullptr\<close> or \<open>Some i\<close> for the \<open>i\<close>-th object made by
  \<open>new Span\<close>; \<open>objs\<close> holds the objects that have not been deleted, and \<open>fresh\<close> is the
  identity \<open>new\<close> hands out next. The two \<open>std::map\<close>s are association lists with distinct
  keys; \<open>FreeSpans_\<close> and \<open>SpanMap_\<close> lose their trailing underscore, and the field
  \<open>next\<close> of a span is \<open>nextSpan\<close>. The mutex is held for a whole call, so a call is one
  step of the model.
\<close>

type_synonym span_ptr = "nat option"

record Span =
  PageAddr :: addr
  sizePages :: size_t
  nextSpan :: span_ptr

record PageCache =
  FreeSpans :: "(size_t \<times> span_ptr) list"
  SpanMap :: "(addr \<times> span_ptr) list"
  objs :: "nat \<Rightarrow> Span option"
  fresh :: nat

text \<open>\<open>p->field\<close>: reading through a null or deleted pointer is an error.\<close>

definition deref :: "(nat \<Rightarrow> Span option) \<Rightarrow> span_ptr \<Rightarrow> error + (nat \<times> Span)" where
  "deref h p =
     (case p of
        None \<Rightarrow> Inl NullDeref
      | Some i \<Rightarrow> (case h i of None \<Rightarrow> Inl DanglingSpan | Some s \<Rightarrow> Inr (i, s)))"

text \<open>\<open>std::map::lower_bound\<close>: the entry with the least key that is not below \<open>k\<close>.\<close>

definition lower_bound :: "(size_t \<times> 'v) list \<Rightarrow> size_t \<Rightarrow> (size_t \<times> 'v) option" where
  "lower_bound m k =
     (case filter (\<lambda>e. k \<le> fst e) m of
        [] \<Rightarrow> None
      | c # cs \<Rightarrow> Some (fold (\<lambda>e b. if fst e < fst b then e else b) cs c))"

text \<open>\<open>std::map::operator[]\<close>: the value read (a value-initialised \<open>nullptr\<close> for a new
  key) and the map afterwards, which has gained the key.\<close>

definition subscript_val :: "('k \<times> span_ptr) list \<Rightarrow> 'k \<Rightarrow> span_ptr" where
  "subscript_val m k = (case map_of m k of None \<Rightarrow> None | Some v \<Rightarrow> v)"

definition subscript_map :: "('k \<times> span_ptr) list \<Rightarrow> 'k \<Rightarrow> ('k \<times> span_ptr) list" where
  "subscript_map m k = (case map_of m k of None \<Rightarrow> m @ [(k, None)] | Some v \<Rightarrow> m)"

text \<open>
  \<open>PageCache::systemaAlloc\<close>. The operating system is a parameter: \<open>mmap len\<close> is the
  address \<open>mmap\<close> returns for a request of \<open>len\<close> bytes, or \<open>None\<close> for \<open>MAP_FAILED\<close>.
  \<open>memset(ptr, 0, size)\<close> clears every cell of the range.
\<close>

definition memset0 :: "memory \<Rightarrow> addr \<Rightarrow> size_t \<Rightarrow> memory" where
  "memset0 mem ptr len = (\<lambda>a. if a - ptr < len then 0 else mem a)"

definition systemaAlloc :: "(size_t \<Rightarrow> addr option) \<Rightarrow> memory \<Rightarrow> size_t \<Rightarrow> addr \<times> memory" where
  "systemaAlloc mmap mem numPages =
     (let len = numPages * PAGE_SIZE
      in case mmap len of
           None \<Rightarrow> (0, mem)
         | Some ptr \<Rightarrow> (ptr, memset0 mem ptr len))"

text \<open>\<open>PageCache::allocateSpan\<close>.\<close>

definition allocateSpan ::
  "(size_t \<Rightarrow> addr option) \<Rightarrow> PageCache \<Rightarrow> memory \<Rightarrow> size_t \<Rightarrow> error + (addr \<times> PageCache \<times> memory)" where
  "allocateSpan mmap pc mem numPages =
     (case lower_bound (FreeSpans pc) numPages of
        Some (key, span) \<Rightarrow>
          (case deref (objs pc) span of
             Inl e \<Rightarrow> Inl e
           | Inr (i, s) \<Rightarrow>
               let fs1 = (if nextSpan s \<noteq> None then AList.update key (nextSpan s) (FreeSpans pc)
                          else AList.delete key (FreeSpans pc));
                   pc1 = pc\<lparr>FreeSpans := fs1\<rparr>;
                   pc2 = (if numPages < sizePages s then
                            let j = fresh pc1;
                                rest = sizePages s - numPages;
                                newSpan = \<lparr>PageAddr = PageAddr s + numPages * PAGE_SIZE,
                                           sizePages = rest,
                                           nextSpan = subscript_val fs1 rest\<rparr>
                            in pc1\<lparr>FreeSpans := AList.update rest (Some j) fs1,
                                   objs := (objs pc1)(j \<mapsto> newSpan, i \<mapsto> s\<lparr>sizePages := numPages\<rparr>),
                                   fresh := Suc j\<rparr>
                          else pc1)
               in Inr (PageAddr s,
                       pc2\<lparr>SpanMap := AList.update (PageAddr s) span (SpanMap pc2)\<rparr>,
                       mem))
      | None \<Rightarrow>
          (case systemaAlloc mmap mem numPages of
             (memory, mem') \<Rightarrow>
               if memory = 0 then Inr (0, pc, mem')
               else let j = fresh pc;
                        span = \<lparr>PageAddr = memory, sizePages = numPages, nextSpan = None\<rparr>
                    in Inr (memory,
                            pc\<lparr>SpanMap := AList.update memory (Some j) (SpanMap pc),
                               objs := (objs pc)(j \<mapsto> span),
                               fresh := Suc j\<rparr>,
                            mem')))"

text \<open>
  The inner \<open>while (prev->next)\<close> of \<open>PageCache::deallocateSpan\<close>, which looks for
  \<open>nextSpan\<close> behind the head of its free list. It follows \<open>next\<close> pointers until it finds
  the span or reaches the end, and does not return on a cyclic list: the result is an
  \<open>option\<close>, with \<open>None\<close> for a loop that runs forever.
\<close>

partial_function (option) unlinkSpan ::
  "(nat \<Rightarrow> Span option) \<Rightarrow> nat \<Rightarrow> nat \<Rightarrow> (error + ((nat \<Rightarrow> Span option) \<times> bool)) option" where
  "unlinkSpan h prev n =
     (case h prev of
        None \<Rightarrow> Some (Inl DanglingSpan)
      | Some p \<Rightarrow>
          (case nextSpan p of
             None \<Rightarrow> Some (Inr (h, False))
           | Some q \<Rightarrow>
               if q = n then
                 (case h n of
                    None \<Rightarrow> Some (Inl DanglingSpan)
                  | Some ns \<Rightarrow> Some (Inr (h(prev \<mapsto> p\<lparr>nextSpan := nextSpan ns\<rparr>), True)))
               else unlinkSpan h q n))"

declare unlinkSpan.simps [code]

text \<open>The forward merge of \<open>deallocateSpan\<close>: the block under
  \<open>if (nextIt != SpanMap_.end())\<close>. The local \<open>nextSpan\<close> of the source is \<open>nextSp\<close>.\<close>

definition mergeNext :: "PageCache \<Rightarrow> span_ptr \<Rightarrow> addr \<Rightarrow> (error + PageCache) option" where
  "mergeNext pc span nextAddr =
     (case map_of (SpanMap pc) nextAddr of
        None \<Rightarrow> Some (Inr pc)
      | Some nextSp \<Rightarrow>
          (case deref (objs pc) nextSp of
             Inl e \<Rightarrow> Some (Inl e)
           | Inr (n, ns) \<Rightarrow>
               let key = sizePages ns;
                   NextList = subscript_val (FreeSpans pc) key;
                   fs0 = subscript_map (FreeSpans pc) key;
                   unlinked =
                     (if NextList = Some n then
                        Some (Inr (pc\<lparr>FreeSpans := AList.update key (nextSpan ns) fs0\<rparr>, True))
                      else
                        (case NextList of
                           None \<Rightarrow> Some (Inr (pc\<lparr>FreeSpans := fs0\<rparr>, False))
                         | Some prev \<Rightarrow>
                             (case unlinkSpan (objs pc) prev n of
                                None \<Rightarrow> None
                              | Some (Inl e) \<Rightarrow> Some (Inl e)
                              | Some (Inr (h, found)) \<Rightarrow>
                                  Some (Inr (pc\<lparr>FreeSpans := fs0, objs := h\<rparr>, found)))))
               in case unlinked of
                    None \<Rightarrow> None
                  | Some (Inl e) \<Rightarrow> Some (Inl e)
                  | Some (Inr (pc1, found)) \<Rightarrow>
                      if found then
                        (case deref (objs pc1) span of
                           Inl e \<Rightarrow> Some (Inl e)
                         | Inr (i, s) \<Rightarrow>
                             (case deref (objs pc1) nextSp of
                                Inl e \<Rightarrow> Some (Inl e)
                              | Inr (n1, ns1) \<Rightarrow>
                                  let h1 = (objs pc1)(i \<mapsto> s\<lparr>sizePages := sizePages s + sizePages ns1\<rparr>)
                                  in Some (Inr (pc1\<lparr>SpanMap := AList.delete nextAddr (SpanMap pc1),
                                                     objs := h1(n1 := None)\<rparr>))))
                      else Some (Inr pc1)))"

text \<open>The tail of \<open>deallocateSpan\<close>: head insertion into \<open>FreeSpans_[span->sizePages]\<close>.\<close>

definition pushFree :: "PageCache \<Rightarrow> span_ptr \<Rightarrow> error + PageCache" where
  "pushFree pc span =
     (case deref (objs pc) span of
        Inl e \<Rightarrow> Inl e
      | Inr (i, s) \<Rightarrow>
          let key = sizePages s;
              list = subscript_val (FreeSpans pc) key
          in Inr (pc\<lparr>FreeSpans := AList.update key span (FreeSpans pc),
                     objs := (objs pc)(i \<mapsto> s\<lparr>nextSpan := list\<rparr>)\<rparr>))"

text \<open>\<open>PageCache::deallocateSpan\<close>.\<close>

definition deallocateSpan :: "PageCache \<Rightarrow> addr \<Rightarrow> size_t \<Rightarrow> (error + PageCache) option" where
  "deallocateSpan pc ptr numPages =
     (case map_of (SpanMap pc) ptr of
        None \<Rightarrow> Some (Inr pc)
      | Some span \<Rightarrow>
          (case mergeNext pc span (ptr + numPages * PAGE_SIZE) of
             None \<Rightarrow> None
           | Some (Inl e) \<Rightarrow> Some (Inl e)
           | Some (Inr pc1) \<Rightarrow> Some (pushFree pc1 span)))"

section \<open>CentralCache.h\<close>

text \<open>
  One list head per size class. The per-class spin lock is taken at the start of each
  operation and released on every path, so under one thread an operation is one step.
\<close>

record CentralCache =
  centralFreeList :: "size_t \<Rightarrow> addr"

text \<open>\<open>CentralCache::fetchFromPageCache\<close>.\<close>

definition fetchFromPageCache ::
  "(size_t \<Rightarrow> addr option) \<Rightarrow> PageCache \<Rightarrow> memory \<Rightarrow> size_t \<Rightarrow> error + (addr \<times> PageCache \<times> memory)" where
  "fetchFromPageCache mmap pc mem sz =
     (let Size_Index = (sz + PAGE_SIZE - 1) div PAGE_SIZE
      in if Size_Index \<le> SPAN_PAGES * PAGE_SIZE then allocateSpan mmap pc mem SPAN_PAGES
         else allocateSpan mmap pc mem Size_Index)"

text \<open>The two \<open>for\<close> statements of \<open>fetchRange\<close> that thread a run of blocks:
  \<open>for (i = lo; i < hi; ++i) *(start + (i - 1) * size) = start + i * size\<close>.\<close>

definition linkBlocks :: "memory \<Rightarrow> addr \<Rightarrow> size_t \<Rightarrow> nat \<Rightarrow> nat \<Rightarrow> memory" where
  "linkBlocks mem start sz lo hi =
     fold (\<lambda>i m. m(start + (of_nat i - 1) * sz := start + of_nat i * sz)) [lo..<hi] mem"

text \<open>The loop \<open>while (current && count < batchNum)\<close> of \<open>fetchRange\<close>; the first
  argument is the number of iterations \<open>count\<close> still allows. It returns \<open>prev\<close> and
  \<open>current\<close>.\<close>

fun fetchWalk :: "memory \<Rightarrow> nat \<Rightarrow> addr \<Rightarrow> addr \<Rightarrow> addr \<times> addr" where
  "fetchWalk mem 0 prev current = (prev, current)"
| "fetchWalk mem (Suc r) prev current =
     (if current = 0 then (prev, current) else fetchWalk mem r current (mem current))"

text \<open>\<open>CentralCache::fetchRange\<close>.\<close>

definition fetchRange ::
  "(size_t \<Rightarrow> addr option) \<Rightarrow> CentralCache \<Rightarrow> PageCache \<Rightarrow> memory \<Rightarrow> size_t \<Rightarrow> size_t
     \<Rightarrow> error + (addr \<times> CentralCache \<times> PageCache \<times> memory)" where
  "fetchRange mmap cc pc mem index batchNum =
     (if FREE_LIST_SIZE \<le> index \<or> batchNum = 0 then Inr (0, cc, pc, mem)
      else
        let result = centralFreeList cc index
        in if result = 0 then
             (let sz = (index + 1) * ALIGNMENT
              in case fetchFromPageCache mmap pc mem sz of
                   Inl e \<Rightarrow> Inl e
                 | Inr (start, pc', mem0) \<Rightarrow>
                     if start = 0 then Inr (0, cc, pc', mem0)
                     else if sz = 0 then Inl DivByZero
                     else
                       let totalBlocks = (SPAN_PAGES * PAGE_SIZE) div sz;
                           allocBlocks = min batchNum totalBlocks;
                           mem1 = (if 1 < allocBlocks then
                                     (linkBlocks mem0 start sz 1 (unat allocBlocks))
                                       (start + (allocBlocks - 1) * sz := 0)
                                   else mem0)
                       in if allocBlocks < totalBlocks then
                            let remainStart = start + allocBlocks * sz;
                                mem2 = (linkBlocks mem1 start sz (unat (allocBlocks + 1)) (unat totalBlocks))
                                         (start + (totalBlocks - 1) * sz := 0)
                            in Inr (start,
                                    cc\<lparr>centralFreeList := (centralFreeList cc)(index := remainStart)\<rparr>,
                                    pc', mem2)
                          else Inr (start, cc, pc', mem1))
           else
             (case fetchWalk mem (unat batchNum) 0 result of
                (prev, current) \<Rightarrow>
                  let mem1 = (if prev \<noteq> 0 then mem(prev := 0) else mem)
                  in Inr (result,
                          cc\<lparr>centralFreeList := (centralFreeList cc)(index := current)\<rparr>,
                          pc, mem1)))"

text \<open>The loop \<open>while (*end != nullptr && count < size)\<close> of \<open>returnRange\<close>; \<open>count\<close>
  starts at 1, and the first argument is the number of iterations it still allows.\<close>

fun rangeEnd :: "memory \<Rightarrow> nat \<Rightarrow> addr \<Rightarrow> addr" where
  "rangeEnd mem 0 e = e"
| "rangeEnd mem (Suc r) e = (if mem e \<noteq> 0 then rangeEnd mem r (mem e) else e)"

text \<open>\<open>CentralCache::returnRange\<close>. Its second parameter is named \<open>size\<close> in the source
  and is the number of blocks of the chain.\<close>

definition returnRange ::
  "CentralCache \<Rightarrow> memory \<Rightarrow> addr \<Rightarrow> size_t \<Rightarrow> size_t \<Rightarrow> CentralCache \<times> memory" where
  "returnRange cc mem ptr count index =
     (if ptr = 0 \<or> FREE_LIST_SIZE \<le> index then (cc, mem)
      else
        let e = rangeEnd mem (unat count - 1) ptr;
            current = centralFreeList cc index
        in (cc\<lparr>centralFreeList := (centralFreeList cc)(index := ptr)\<rparr>, mem(e := current)))"

section \<open>ThreadCache.h\<close>

text \<open>
  The two arrays of \<open>FREE_LIST_SIZE\<close> slots, \<open>_freeList\<close> and \<open>_freeListSize\<close>, indexed by
  the size class. \<open>allocate\<close> and \<open>deallocate\<close> index them with \<open>getIndex\<close> of a size that
  is at most \<open>MAX_BYTES\<close>, which stays below \<open>FREE_LIST_SIZE\<close>. The instance is
  \<open>thread_local\<close> with static storage, so both arrays start zeroed.
\<close>

record ThreadCache =
  freeList :: "size_t \<Rightarrow> addr"
  freeListSize :: "size_t \<Rightarrow> size_t"

definition initThreadCache :: ThreadCache where
  "initThreadCache = \<lparr>freeList = (\<lambda>_. 0), freeListSize = (\<lambda>_. 0)\<rparr>"

text \<open>
  \<open>ThreadCache::allocate\<close>. \<open>malloc\<close> stands for the system allocator of the large path.
  The result is the pointer returned and the cache afterwards.
\<close>

definition allocate :: "(size_t \<Rightarrow> addr) \<Rightarrow> memory \<Rightarrow> ThreadCache \<Rightarrow> size_t \<Rightarrow> addr \<times> ThreadCache" where
  "allocate malloc mem tc size0 =
     (let sz = (if size0 = 0 then ALIGNMENT else size0)
      in if MAX_BYTES < sz then (malloc sz, tc)
         else
           let index = getIndex sz;
               tc1 = tc\<lparr>freeListSize := (freeListSize tc)(index := freeListSize tc index - 1)\<rparr>;
               ptr = freeList tc1 index
           in if ptr \<noteq> 0 then (ptr, tc1\<lparr>freeList := (freeList tc1)(index := mem ptr)\<rparr>)
              else (0, tc1))"

text \<open>\<open>ThreadCache::shuoReturnThreadCache\<close>.\<close>

definition shuoReturnThreadCache :: "ThreadCache \<Rightarrow> size_t \<Rightarrow> bool" where
  "shuoReturnThreadCache tc index = (64 < freeListSize tc index)"

text \<open>
  The \<open>for\<close> loop of \<open>returnThreadCache\<close>: \<open>RetainNum - 1\<close> steps along the list, leaving
  early when the list ends. The result is \<open>splitNode\<close> and, after an early exit, the
  value of \<open>i\<close> at the \<open>break\<close>.
\<close>

fun splitWalk :: "memory \<Rightarrow> nat \<Rightarrow> size_t \<Rightarrow> addr \<Rightarrow> error + (addr \<times> size_t option)" where
  "splitWalk mem 0 i splitNode = Inr (splitNode, None)"
| "splitWalk mem (Suc r) i splitNode =
     (if splitNode = 0 then Inl NullDeref
      else if mem splitNode = 0 then Inr (0, Some i)
      else splitWalk mem r (i + 1) (mem splitNode))"

text \<open>\<open>ThreadCache::returnThreadCache\<close>.\<close>

definition returnThreadCache ::
  "ThreadCache \<Rightarrow> CentralCache \<Rightarrow> memory \<Rightarrow> addr \<Rightarrow> size_t
     \<Rightarrow> error + (ThreadCache \<times> CentralCache \<times> memory)" where
  "returnThreadCache tc cc mem ptr sz =
     (let index = getIndex sz;
          batchNum = freeListSize tc index
      in if batchNum \<le> 1 then Inr (tc, cc, mem)
         else
           let RetainNum = max (batchNum div 2) 1;
               FreesizeNum = batchNum - RetainNum
           in case splitWalk mem (unat (RetainNum - 1)) 0 ptr of
                Inl e \<Rightarrow> Inl e
              | Inr (splitNode, brk) \<Rightarrow>
                  let FreesizeNum1 = (case brk of None \<Rightarrow> FreesizeNum | Some i \<Rightarrow> batchNum - (i + 1))
                  in if splitNode \<noteq> 0 then
                       let nextNode = mem splitNode;
                           mem1 = mem(splitNode := 0);
                           tc1 = tc\<lparr>freeList := (freeList tc)(index := nextNode),
                                    freeListSize := (freeListSize tc)(index := RetainNum)\<rparr>
                       in if 0 < RetainNum \<and> nextNode \<noteq> 0 then
                            (case returnRange cc mem1 nextNode FreesizeNum1 index of
                               (cc1, mem2) \<Rightarrow> Inr (tc1, cc1, mem2))
                          else Inr (tc1, cc, mem1)
                     else Inr (tc, cc, mem))"

text \<open>\<open>ThreadCache::deallocate\<close>. \<open>free\<close> on the large path does not touch the pool.\<close>

definition deallocate ::
  "ThreadCache \<Rightarrow> CentralCache \<Rightarrow> memory \<Rightarrow> addr \<Rightarrow> size_t
     \<Rightarrow> error + (ThreadCache \<times> CentralCache \<times> memory)" where
  "deallocate tc cc mem ptr sz =
     (if MAX_BYTES < sz then Inr (tc, cc, mem)
      else
        let index = getIndex sz
        in if ptr = 0 then Inl NullDeref
           else
             let mem1 = mem(ptr := freeList tc index);
                 tc1 = tc\<lparr>freeList := (freeList tc)(index := ptr),
                          freeListSize := (freeListSize tc)(index := freeListSize tc index + 1)\<rparr>
             in if shuoReturnThreadCache tc1 index then returnThreadCache tc1 cc mem1 ptr sz
                else Inr (tc1, cc, mem1))"

text \<open>\<open>ThreadCache::fetchFromCentralCache\<close>. No function of the repository calls it.\<close>

definition fetchFromCentralCache ::
  "(size_t \<Rightarrow> addr option) \<Rightarrow> ThreadCache \<Rightarrow> CentralCache \<Rightarrow> PageCache \<Rightarrow> memory \<Rightarrow> size_t
     \<Rightarrow> error + (addr \<times> ThreadCache \<times> CentralCache \<times> PageCache \<times> memory)" where
  "fetchFromCentralCache mmap tc cc pc mem index =
     (let sz = (index + 1) * ALIGNMENT
      in case getBatchNum sz of
           Inl e \<Rightarrow> Inl e
         | Inr batchNum \<Rightarrow>
             (case fetchRange mmap cc pc mem index batchNum of
                Inl e \<Rightarrow> Inl e
              | Inr (start, cc1, pc1, mem1) \<Rightarrow>
                  if start = 0 then Inr (0, tc, cc1, pc1, mem1)
                  else
                    let tc1 = tc\<lparr>freeListSize := (freeListSize tc)(index := freeListSize tc index + batchNum)\<rparr>;
                        tc2 = (if 1 < batchNum then tc1\<lparr>freeList := (freeList tc1)(index := mem1 start)\<rparr>
                               else tc1)
                    in Inr (start, tc2, cc1, pc1, mem1)))"

section \<open>Lists in block memory\<close>

text \<open>\<open>lseg mem a xs b\<close>: following the links from \<open>a\<close> visits exactly the blocks \<open>xs\<close>,
  none of them null, and arrives at \<open>b\<close>.\<close>

fun lseg :: "memory \<Rightarrow> addr \<Rightarrow> addr list \<Rightarrow> addr \<Rightarrow> bool" where
  "lseg mem a [] b = (a = b)"
| "lseg mem a (x # xs) b = (a = x \<and> x \<noteq> 0 \<and> lseg mem (mem x) xs b)"

text \<open>\<open>spanList h p xs\<close>: the \<open>next\<close> pointers from \<open>p\<close> run through the live spans \<open>xs\<close>
  and end in \<open>nullptr\<close>.\<close>

fun spanList :: "(nat \<Rightarrow> Span option) \<Rightarrow> span_ptr \<Rightarrow> nat list \<Rightarrow> bool" where
  "spanList h p [] = (p = None)"
| "spanList h p (x # xs) =
     (p = Some x \<and> (case h x of None \<Rightarrow> False | Some s \<Rightarrow> spanList h (nextSpan s) xs))"

section \<open>Initial states and environments\<close>

text \<open>\<open>PageCache() = default\<close>: both maps empty. The constructor of \<open>CentralCache\<close> stores
  \<open>nullptr\<close> in every head.\<close>

definition initPageCache :: PageCache where
  "initPageCache = \<lparr>FreeSpans = [], SpanMap = [], objs = Map.empty, fresh = 0\<rparr>"

definition initCentralCache :: CentralCache where
  "initCentralCache = \<lparr>centralFreeList = (\<lambda>_. 0)\<rparr>"

definition zeroMemory :: memory where
  "zeroMemory = (\<lambda>_. 0)"

text \<open>An operating system that grants every mapping at the address \<open>a\<close>, and a system
  allocator that answers \<open>a\<close>.\<close>

definition mmapAt :: "addr \<Rightarrow> size_t \<Rightarrow> addr option" where
  "mmapAt a len = Some a"

definition mallocAt :: "addr \<Rightarrow> size_t \<Rightarrow> addr" where
  "mallocAt a len = a"

text \<open>A sequence of calls on the PageCache singleton, each allocation with the answer
  the operating system would give it. The run stops at the first error.\<close>

datatype pcCall = AllocateSpan "size_t \<Rightarrow> addr option" size_t | DeallocateSpan addr size_t

fun runPageCache :: "PageCache \<times> memory \<Rightarrow> pcCall list \<Rightarrow> (error + PageCache \<times> memory) option" where
  "runPageCache st [] = Some (Inr st)"
| "runPageCache (pc, mem) (AllocateSpan mmap k # cs) =
     (case allocateSpan mmap pc mem k of
        Inl e \<Rightarrow> Some (Inl e)
      | Inr (p, pc1, mem1) \<Rightarrow> runPageCache (pc1, mem1) cs)"
| "runPageCache (pc, mem) (DeallocateSpan p k # cs) =
     (case deallocateSpan pc p k of
        None \<Rightarrow> None
      | Some (Inl e) \<Rightarrow> Some (Inl e)
      | Some (Inr pc1) \<Rightarrow> runPageCache (pc1, mem) cs)"

text \<open>The PageCache after two adjacent one-page spans were allocated, the lower at
  \<open>0x10000\<close> and the upper at \<open>0x11000\<close>, and the upper one was released.\<close>

definition adjacentPageCache :: PageCache where
  "adjacentPageCache =
     \<lparr>FreeSpans = [(1, Some 0)],
      SpanMap = [(0x11000, Some 0), (0x10000, Some 1)],
      objs = [0 \<mapsto> \<lparr>PageAddr = 0x11000, sizePages = 1, nextSpan = None\<rparr>,
              1 \<mapsto> \<lparr>PageAddr = 0x10000, sizePages = 1, nextSpan = None\<rparr>],
      fresh = 2\<rparr>"

text \<open>\<open>blocksFrom mem f a\<close>: the blocks met on the way from \<open>a\<close> to the first null link,
  at most \<open>f\<close> of them.\<close>

fun blocksFrom :: "memory \<Rightarrow> nat \<Rightarrow> addr \<Rightarrow> addr list" where
  "blocksFrom mem 0 a = []"
| "blocksFrom mem (Suc f) a = (if a = 0 then [] else a # blocksFrom mem f (mem a))"

text \<open>A thread whose list of class 1 (16-byte blocks) holds the 64 blocks \<open>0x1000\<close>,
  \<open>0x1010\<close>, ..., \<open>0x13F0\<close> in this order, with the counter at 64.\<close>

definition fullBlocks :: "addr list" where
  "fullBlocks = map (\<lambda>i. 0x1000 + 16 * of_nat i) [0..<64]"

definition fullMemory :: memory where
  "fullMemory = (\<lambda>a. if 0x1000 \<le> a \<and> a < 0x13F0 then a + 16 else 0)"

definition fullThreadCache :: ThreadCache where
  "fullThreadCache = \<lparr>freeList = (\<lambda>_. 0)(1 := 0x1000), freeListSize = (\<lambda>_. 0)(1 := 64)\<rparr>"

section \<open>Size classes\<close>

lemma and_not7: "(x::64 word) AND NOT 7 = (x div 8) * 8"
proof -
  have m: "(7::64 word) = mask 3" by (simp add: mask_eq_exp_minus_1)
  have "x AND NOT (mask 3) = push_bit 3 (drop_bit 3 x)"
    by (rule bit_eqI) (auto simp: bit_simps)
  then show ?thesis
    unfolding m by (simp add: push_bit_eq_mult drop_bit_eq_div)
qed

lemma roundUp_unat:
  assumes "unat n \<le> 2 ^ 64 - 8"
  shows "unat (roundUp n) = ((unat n + 7) div 8) * 8"
proof -
  have a: "unat (n + 7) = unat n + 7"
    using assms by (simp add: unat_word_ariths)
  have d: "unat ((n + 7) div 8) = (unat n + 7) div 8"
    by (simp add: unat_div a)
  have "(unat n + 7) div 8 * 8 < 2 ^ 64"
    using assms by simp
  then have "unat ((n + 7) div 8 * 8) = (unat n + 7) div 8 * 8"
    using d by (simp add: unat_word_ariths)
  moreover have "roundUp n = (n + 7) div 8 * 8"
    unfolding roundUp_def ALIGNMENT_def using and_not7 [of "n + 7"] by (simp add: add.commute)
  ultimately show ?thesis by simp
qed

lemma getIndex_unat:
  assumes "unat n \<le> 2 ^ 64 - 8"
  shows "unat (getIndex n) = (max (unat n) 8 + 7) div 8 - 1"
proof -
  have m: "unat (max n 8) = max (unat n) 8"
    by (simp add: max_def word_le_nat_alt)
  have a: "unat (max n 8 + 7) = max (unat n) 8 + 7"
    using assms by (simp add: unat_word_ariths m)
  have d: "unat ((max n 8 + 7) div 8) = (max (unat n) 8 + 7) div 8"
    by (simp add: unat_div a)
  have "1 \<le> (max n 8 + 7) div 8"
    using d by (simp add: word_le_nat_alt)
  then have "unat ((max n 8 + 7) div 8 - 1) = (max (unat n) 8 + 7) div 8 - 1"
    using d by (simp add: unat_sub)
  moreover have "getIndex n = (max n 8 + 7) div 8 - 1"
    unfolding getIndex_def ALIGNMENT_def Let_def by (simp add: add.commute)
  ultimately show ?thesis by simp
qed

lemma getIndex_lt:
  assumes "n \<le> MAX_BYTES"
  shows "getIndex n < FREE_LIST_SIZE"
proof -
  have n2: "unat n \<le> 262144"
    using assms by (simp add: word_le_nat_alt MAX_BYTES_def)
  then have "unat n \<le> 2 ^ 64 - 8" by simp
  then have "unat (getIndex n) = (max (unat n) 8 + 7) div 8 - 1"
    by (rule getIndex_unat)
  then have "unat (getIndex n) < 32768"
    using n2 by arith
  then show ?thesis
    by (simp add: FREE_LIST_SIZE_def MAX_BYTES_def ALIGNMENT_def word_less_nat_alt)
qed

text \<open>
  Claim C5. For every \<open>n\<close> with \<open>1 \<le> n \<le> MAX_BYTES\<close>, \<open>roundUp n\<close> is
  \<open>(getIndex n + 1) * ALIGNMENT\<close>, and \<open>getIndex n\<close> is below \<open>FREE_LIST_SIZE\<close>.
\<close>

theorem roundUp_getIndex:
  assumes "1 \<le> n" and "n \<le> MAX_BYTES"
  shows "roundUp n = (getIndex n + 1) * ALIGNMENT \<and> getIndex n < FREE_LIST_SIZE"
proof -
  have n1: "1 \<le> unat n"
    using assms(1) by (simp add: word_le_nat_alt)
  have n2: "unat n \<le> 262144"
    using assms(2) by (simp add: word_le_nat_alt MAX_BYTES_def)
  then have le: "unat n \<le> 2 ^ 64 - 8" by simp
  have r: "unat (roundUp n) = ((unat n + 7) div 8) * 8"
    by (rule roundUp_unat [OF le])
  have g: "unat (getIndex n) = (max (unat n) 8 + 7) div 8 - 1"
    by (rule getIndex_unat [OF le])
  have lt: "unat (getIndex n) < 32768"
    unfolding g using n2 by arith
  have "unat ((getIndex n + 1) * 8) = (unat (getIndex n) + 1) * 8"
    using lt by (simp add: unat_word_ariths)
  also have "\<dots> = ((unat n + 7) div 8) * 8"
    unfolding g using n1 by (simp add: max_def) arith
  finally have "unat (roundUp n) = unat ((getIndex n + 1) * 8)"
    using r by simp
  then have "roundUp n = (getIndex n + 1) * 8"
    by (rule word_unat_eq_iff [THEN iffD2])
  then have "roundUp n = (getIndex n + 1) * ALIGNMENT"
    by (simp only: ALIGNMENT_def)
  then show ?thesis
    using getIndex_lt [OF assms(2)] by simp
qed

theorem roundUp_getIndex_witness:
  "(1::size_t) \<le> 100 \<and> (100::size_t) \<le> MAX_BYTES \<and>
   roundUp 100 = (getIndex 100 + 1) * ALIGNMENT \<and> getIndex 100 < FREE_LIST_SIZE"
proof -
  have a: "(1::size_t) \<le> 100" by simp
  have b: "(100::size_t) \<le> MAX_BYTES" by (simp add: MAX_BYTES_def)
  show ?thesis using a b roundUp_getIndex [OF a b] by simp
qed

lemma multiple_ge: "8 dvd (m::nat) \<Longrightarrow> k \<le> m \<Longrightarrow> (k + 7) div 8 * 8 \<le> m"
  by (elim dvdE) auto

text \<open>
  Claim C8, as stated, fails at \<open>n = 0\<close>: \<open>roundUp\<close> has no lower clamp, so
  \<open>roundUp 0\<close> is 0 and not \<open>ALIGNMENT\<close>. The sum \<open>bytes + ALIGNMENT - 1\<close> also wraps
  for the seven largest values of \<open>size_t\<close>.
\<close>

theorem roundUp_zero_counterexample:
  "roundUp 0 \<noteq> ALIGNMENT \<and> roundUp 0 = 0 \<and> roundUp 18446744073709551615 = 0"
  by (simp add: roundUp_def ALIGNMENT_def)

text \<open>
  Claim C8, amended. For every \<open>n\<close> with \<open>1 \<le> n \<le> 2^64 - 8\<close>, \<open>roundUp n\<close> is the
  least multiple of \<open>ALIGNMENT\<close> that is at least \<open>max n ALIGNMENT\<close>; and \<open>roundUp 0 = 0\<close>.
\<close>

theorem roundUp_least_multiple:
  assumes "1 \<le> n" and "unat n \<le> 2 ^ 64 - 8"
  shows "unat ALIGNMENT dvd unat (roundUp n) \<and> max n ALIGNMENT \<le> roundUp n \<and>
         (\<forall>m. unat ALIGNMENT dvd m \<and> unat (max n ALIGNMENT) \<le> m \<longrightarrow> unat (roundUp n) \<le> m) \<and>
         roundUp 0 = 0"
proof (intro conjI)
  have n1: "1 \<le> unat n"
    using assms(1) by (simp add: word_le_nat_alt)
  have r: "unat (roundUp n) = ((unat n + 7) div 8) * 8"
    using assms(2) by (rule roundUp_unat)
  have m: "unat (max n 8) = max (unat n) 8"
    by (simp add: max_def word_le_nat_alt)
  show "unat ALIGNMENT dvd unat (roundUp n)"
    by (simp add: r ALIGNMENT_def)
  show "max n ALIGNMENT \<le> roundUp n"
    unfolding word_le_nat_alt ALIGNMENT_def m r using n1 by arith
  show "\<forall>m. unat ALIGNMENT dvd m \<and> unat (max n ALIGNMENT) \<le> m \<longrightarrow> unat (roundUp n) \<le> m"
    unfolding ALIGNMENT_def m r using multiple_ge by (simp add: max_def split: if_splits)
  show "roundUp 0 = 0"
    by (simp add: roundUp_def ALIGNMENT_def)
qed

theorem roundUp_least_multiple_witness:
  "(1::size_t) \<le> 10 \<and> unat (10::size_t) \<le> 2 ^ 64 - 8 \<and> roundUp 10 = 16 \<and>
   unat ALIGNMENT dvd unat (roundUp 10) \<and> max 10 ALIGNMENT \<le> roundUp 10"
proof -
  have a: "(1::size_t) \<le> 10" by simp
  have b: "unat (10::size_t) \<le> 2 ^ 64 - 8" by simp
  have c: "roundUp 10 = 16" by (simp add: roundUp_def ALIGNMENT_def)
  show ?thesis using a b c roundUp_least_multiple [OF a b] by simp
qed

section \<open>Batch size\<close>

lemma getBatchNum_large: "1024 < s \<Longrightarrow> getBatchNum s = Inr 4"
proof -
  assume h: "1024 < s"
  then have nz: "s \<noteq> 0" by auto
  have b: "baseNum s = 1"
    using h by (auto simp: baseNum_def word_le_nat_alt word_less_nat_alt)
  have "min (max 1 (MAX_BATCH_SIZE div s)) 1 = 1"
    by (simp add: min_def)
  then show ?thesis
    using nz b by (simp add: getBatchNum_def sizeof_int_def)
qed

text \<open>
  Claim C3 at the block size 2048: the claim gives \<open>max 1 (min baseline (4096 / s)) = 1\<close>,
  the code returns 4, because its outer bound is \<open>sizeof(1)\<close> and not 1.
\<close>

theorem getBatchNum_2048:
  "getBatchNum 2048 = Inr 4 \<and> max 1 (min (baseNum 2048) (4096 div 2048)) = (1 :: size_t)"
  by (simp add: getBatchNum_def MAX_BATCH_SIZE_def sizeof_int_def baseNum_def)

section \<open>Span size\<close>

text \<open>
  Claim C4 at the block size 64 KiB: \<open>Size_Index\<close> is 16 pages, the claim asks for a span
  of 16 pages, and the code asks PageCache for \<open>SPAN_PAGES = 8\<close>, because it compares the
  page count with the byte count \<open>SPAN_PAGES * PAGE_SIZE\<close>.
\<close>

theorem fetchFromPageCache_65536:
  "fetchFromPageCache mmap pc mem 65536 = allocateSpan mmap pc mem 8 \<and>
   (65536 + PAGE_SIZE - 1) div PAGE_SIZE = 16 \<and> SPAN_PAGES * PAGE_SIZE < 65536"
  by (simp add: fetchFromPageCache_def PAGE_SIZE_def SPAN_PAGES_def)

section \<open>ThreadCache: the free list is a stack\<close>

lemma wrap7:
  assumes "\<not> unat (m :: 64 word) \<le> 2 ^ 64 - 8"
  shows "unat (m + 7) < 8"
proof -
  have lt: "unat m < 18446744073709551616"
    using unsigned_less [of m] by simp
  have ge: "18446744073709551609 \<le> unat m"
    using assms by simp
  have a: "unat (m + 7) = (unat m + 7) mod 18446744073709551616"
    by (simp add: unat_word_ariths)
  have "(unat m + 7) mod 18446744073709551616 =
        (unat m + 7 - 18446744073709551616) mod 18446744073709551616"
    using ge by (intro le_mod_geq) simp
  also have "\<dots> = unat m + 7 - 18446744073709551616"
    using lt by (intro mod_less) simp
  finally show ?thesis using lt a by simp
qed

text \<open>Only requests of the pool have a class index below \<open>FREE_LIST_SIZE\<close>.\<close>

lemma getIndex_pool_only:
  assumes "getIndex m < FREE_LIST_SIZE"
  shows "m \<le> MAX_BYTES"
proof (rule ccontr)
  assume "\<not> m \<le> MAX_BYTES"
  then have big: "262144 < unat m"
    by (simp add: MAX_BYTES_def word_le_nat_alt not_le)
  then have mx: "max m 8 = m"
    by (simp add: max_def word_le_nat_alt)
  have g: "getIndex m = (m + 7) div 8 - 1"
    by (simp add: getIndex_def ALIGNMENT_def mx add.commute)
  have d: "unat ((m + 7) div 8) = unat (m + 7) div 8"
    by (simp add: unat_div)
  have small: "unat (getIndex m) < 32768"
    using assms by (simp add: FREE_LIST_SIZE_def MAX_BYTES_def ALIGNMENT_def word_less_nat_alt)
  show False
  proof (cases "unat m \<le> 2 ^ 64 - 8")
    case True
    then have "unat (m + 7) = unat m + 7"
      by (simp add: unat_word_ariths)
    then have q: "unat ((m + 7) div 8) = (unat m + 7) div 8"
      using d by simp
    have q2: "32769 \<le> unat ((m + 7) div 8)"
      unfolding q using big by arith
    then have "1 \<le> (m + 7) div 8"
      by (simp add: word_le_nat_alt)
    then have "unat ((m + 7) div 8 - 1) = unat ((m + 7) div 8) - 1"
      by (simp add: unat_sub)
    then show False
      using small q2 unfolding g by arith
  next
    case False
    then have "unat (m + 7) < 8" by (rule wrap7)
    then have "unat ((m + 7) div 8) = 0"
      using d by simp
    then have "(m + 7) div 8 = 0"
      by (simp add: unat_eq_0)
    then have "getIndex m = 18446744073709551615"
      unfolding g by simp
    then show False
      using small by simp
  qed
qed

lemma getIndex_zero: "getIndex (if m = 0 then ALIGNMENT else m) = getIndex m"
  by (simp add: getIndex_def ALIGNMENT_def)

text \<open>
  Claim C9. After \<open>deallocate(p1, n)\<close> and \<open>deallocate(p2, n)\<close> on any ThreadCache, with
  \<open>n \<le> MAX_BYTES\<close>, non-null blocks and neither push taking the counter of the class
  above 64 (no spill), \<open>allocate(m)\<close> with \<open>getIndex m = getIndex n\<close> returns \<open>p2\<close>.
\<close>

theorem free_list_lifo:
  assumes n: "n \<le> MAX_BYTES"
    and idx: "getIndex m = getIndex n"
    and p1: "p1 \<noteq> 0" and p2: "p2 \<noteq> 0"
    and ns1: "\<not> 64 < freeListSize tc (getIndex n) + 1"
    and ns2: "\<not> 64 < freeListSize tc (getIndex n) + 1 + 1"
  shows "\<exists>tc1 cc1 mem1 tc2 cc2 mem2 tc3.
           deallocate tc cc mem p1 n = Inr (tc1, cc1, mem1) \<and>
           deallocate tc1 cc1 mem1 p2 n = Inr (tc2, cc2, mem2) \<and>
           allocate malloc mem2 tc2 m = (p2, tc3)"
proof -
  let ?i = "getIndex n"
  let ?tc1 = "tc\<lparr>freeList := (freeList tc)(?i := p1),
                 freeListSize := (freeListSize tc)(?i := freeListSize tc ?i + 1)\<rparr>"
  let ?mem1 = "mem(p1 := freeList tc ?i)"
  let ?tc2 = "?tc1\<lparr>freeList := (freeList ?tc1)(?i := p2),
                 freeListSize := (freeListSize ?tc1)(?i := freeListSize ?tc1 ?i + 1)\<rparr>"
  let ?mem2 = "?mem1(p2 := p1)"
  have n': "\<not> MAX_BYTES < n"
    using n by (simp add: not_less)
  have d1: "deallocate tc cc mem p1 n = Inr (?tc1, cc, ?mem1)"
    using n' p1 ns1 by (simp add: deallocate_def shuoReturnThreadCache_def Let_def)
  have d2: "deallocate ?tc1 cc ?mem1 p2 n = Inr (?tc2, cc, ?mem2)"
    using n' p2 ns2 by (simp add: deallocate_def shuoReturnThreadCache_def Let_def)
  have "getIndex m < FREE_LIST_SIZE"
    using getIndex_lt [OF n] idx by simp
  then have m: "m \<le> MAX_BYTES"
    by (rule getIndex_pool_only)
  have m': "\<not> MAX_BYTES < (if m = 0 then ALIGNMENT else m)"
    using m by (simp add: not_less MAX_BYTES_def ALIGNMENT_def)
  have i': "getIndex (if m = 0 then ALIGNMENT else m) = ?i"
    using idx getIndex_zero [of m] by simp
  have "fst (allocate malloc ?mem2 ?tc2 m) = p2"
    unfolding allocate_def Let_def using m' i' p2 by simp
  then have "allocate malloc ?mem2 ?tc2 m = (p2, snd (allocate malloc ?mem2 ?tc2 m))"
    by (metis prod.collapse)
  with d1 d2 show ?thesis by blast
qed

theorem free_list_lifo_witness:
  "(16::size_t) \<le> MAX_BYTES \<and> getIndex 10 = getIndex 16 \<and>
   (\<exists>tc1 cc1 mem1 tc2 cc2 mem2 tc3.
      deallocate initThreadCache initCentralCache zeroMemory 0x1000 16 = Inr (tc1, cc1, mem1) \<and>
      deallocate tc1 cc1 mem1 0x2000 16 = Inr (tc2, cc2, mem2) \<and>
      allocate (mallocAt 0) mem2 tc2 10 = (0x2000, tc3))"
proof -
  have a: "(16::size_t) \<le> MAX_BYTES"
    by (simp add: MAX_BYTES_def)
  have c: "getIndex 10 = getIndex 16"
    by (simp add: getIndex_def ALIGNMENT_def)
  have d: "(0x1000::addr) \<noteq> 0" and e: "(0x2000::addr) \<noteq> 0"
    by simp_all
  have f: "\<not> 64 < freeListSize initThreadCache (getIndex 16) + 1"
    and g: "\<not> 64 < freeListSize initThreadCache (getIndex 16) + 1 + 1"
    by (simp_all add: initThreadCache_def)
  show ?thesis
    using a c free_list_lifo [OF a c d e f g, of initCentralCache zeroMemory "mallocAt 0"]
    by simp
qed

section \<open>ThreadCache: a miss\<close>

lemma allocate_empty:
  assumes "freeList tc (getIndex (if n = 0 then ALIGNMENT else n)) = 0" and "n \<le> MAX_BYTES"
  shows "fst (allocate malloc mem tc n) = 0 \<and>
         freeList (snd (allocate malloc mem tc n)) = freeList tc"
proof -
  have "\<not> MAX_BYTES < (if n = 0 then ALIGNMENT else n)"
    using assms(2) by (simp add: not_less MAX_BYTES_def ALIGNMENT_def)
  then show ?thesis
    using assms(1) by (simp add: allocate_def Let_def)
qed

lemmas pc_defs = allocateSpan_def lower_bound_def deallocateSpan_def mergeNext_def pushFree_def
  deref_def systemaAlloc_def subscript_val_def subscript_map_def PAGE_SIZE_def
  initPageCache_def mmapAt_def Let_def

text \<open>
  Claim C1 at \<open>allocate(16)\<close> on a fresh thread: the class list is empty, and
  \<open>allocate\<close> returns null after taking the counter of the class from 0 to \<open>2^64 - 1\<close>.
  It does not call \<open>fetchFromCentralCache\<close>, which in the same state, with an operating
  system that grants the mapping, returns the block \<open>0x10000\<close> and leaves the rest of the
  span in CentralCache.
\<close>

theorem allocate_16_fresh:
  "fst (allocate (mallocAt 0) zeroMemory initThreadCache 16) = 0 \<and>
   freeListSize (snd (allocate (mallocAt 0) zeroMemory initThreadCache 16)) (getIndex 16) =
     18446744073709551615 \<and>
   (case fetchFromCentralCache (mmapAt 0x10000) initThreadCache initCentralCache initPageCache
           zeroMemory (getIndex 16) of
      Inr (p, tc, cc, pc, m) \<Rightarrow>
        p = 0x10000 \<and> freeListSize tc (getIndex 16) = 64 \<and>
        centralFreeList cc (getIndex 16) = 0x10400
    | Inl e \<Rightarrow> False)"
proof -
  have "\<not> (32768::64 word) \<le> 1"
    by (simp add: word_le_nat_alt)
  then show ?thesis
    by (simp add: allocate_def getIndex_def ALIGNMENT_def MAX_BYTES_def initThreadCache_def
        fetchFromCentralCache_def getBatchNum_def MAX_BATCH_SIZE_def sizeof_int_def baseNum_def
        fetchRange_def FREE_LIST_SIZE_def initCentralCache_def fetchFromPageCache_def
        SPAN_PAGES_def zeroMemory_def mallocAt_def memset0_def pc_defs)
qed

section \<open>PageCache\<close>

text \<open>
  Claim C10. When \<open>ptr\<close> is not a key of \<open>SpanMap_\<close>, \<open>deallocateSpan(ptr, k)\<close> returns
  and leaves the whole PageCache as it was.
\<close>

theorem deallocateSpan_unknown:
  "map_of (SpanMap pc) ptr = None \<Longrightarrow> deallocateSpan pc ptr k = Some (Inr pc)"
  by (simp add: deallocateSpan_def)

theorem deallocateSpan_unknown_witness:
  "map_of (SpanMap adjacentPageCache) 0x99000 = None \<and>
   deallocateSpan adjacentPageCache 0x99000 3 = Some (Inr adjacentPageCache)"
proof -
  have a: "map_of (SpanMap adjacentPageCache) 0x99000 = None"
    by (simp add: adjacentPageCache_def)
  show ?thesis
    using a deallocateSpan_unknown [OF a, of 3] by simp
qed

text \<open>
  Claim C7, as stated, fails after one allocation and its release: the span is the head
  of \<open>FreeSpans_[1]\<close> and is still the value of \<open>SpanMap_[0x11000]\<close>.
\<close>

theorem free_span_still_live_counterexample:
  "(case runPageCache (initPageCache, zeroMemory)
           [AllocateSpan (mmapAt 0x11000) 1, DeallocateSpan 0x11000 1] of
      Some (Inr (pc, m)) \<Rightarrow>
        map_of (FreeSpans pc) 1 = Some (Some 0) \<and> map_of (SpanMap pc) 0x11000 = Some (Some 0)
    | _ \<Rightarrow> False)"
  by (simp add: pc_defs)

lemma unlinkSpan_total:
  assumes "spanList h (Some prev) xs" and "h n = Some ns"
  shows "\<exists>h' b. unlinkSpan h prev n = Some (Inr (h', b)) \<and>
           (\<forall>j s. h j = Some s \<longrightarrow> (\<exists>s'. h' j = Some s' \<and> sizePages s' = sizePages s))"
  using assms
proof (induction xs arbitrary: prev)
  case Nil
  then show ?case by simp
next
  case (Cons x xs)
  then obtain p where hp: "h prev = Some p" and tl: "spanList h (nextSpan p) xs"
    by (auto split: option.splits)
  show ?case
  proof (cases "nextSpan p")
    case None
    then show ?thesis
      using hp by (subst unlinkSpan.simps) auto
  next
    case (Some q)
    show ?thesis
    proof (cases "q = n")
      case True
      then show ?thesis
        using hp Some Cons.prems(2) by (subst unlinkSpan.simps) auto
    next
      case False
      have "spanList h (Some q) xs"
        using tl Some by simp
      from Cons.IH [OF this Cons.prems(2)] show ?thesis
        using hp Some False by (subst unlinkSpan.simps) simp
    qed
  qed
qed

lemma pushFree_ok:
  assumes "objs pc i = Some s"
  shows "\<exists>pc' s'. pushFree pc (Some i) = Inr pc' \<and> objs pc' i = Some s' \<and>
           map_of (FreeSpans pc') (sizePages s') = Some (Some i) \<and> SpanMap pc' = SpanMap pc"
  using assms by (simp add: pushFree_def deref_def Let_def update_conv')

lemma mergeNext_ok:
  assumes reg: "map_of (SpanMap pc) ptr = Some (Some i)"
    and live: "objs pc i = Some s"
    and succ: "case map_of (SpanMap pc) nextAddr of
                 None \<Rightarrow> True
               | Some q \<Rightarrow> (\<exists>n ns xs. q = Some n \<and> n \<noteq> i \<and> objs pc n = Some ns \<and>
                    spanList (objs pc) (subscript_val (FreeSpans pc) (sizePages ns)) xs)"
  shows "\<exists>pc1 s1. mergeNext pc (Some i) nextAddr = Some (Inr pc1) \<and> objs pc1 i = Some s1 \<and>
           map_of (SpanMap pc1) ptr = Some (Some i)"
proof (cases "map_of (SpanMap pc) nextAddr")
  case None
  then show ?thesis
    using reg live by (simp add: mergeNext_def)
next
  case (Some q)
  then obtain n ns xs where q: "q = Some n" and ni: "n \<noteq> i" and hn: "objs pc n = Some ns"
    and sl: "spanList (objs pc) (subscript_val (FreeSpans pc) (sizePages ns)) xs"
    using succ by auto
  have pn: "ptr \<noteq> nextAddr"
    using reg Some q ni by auto
  let ?NextList = "subscript_val (FreeSpans pc) (sizePages ns)"
  show ?thesis
  proof (cases "?NextList = Some n")
    case True
    then show ?thesis
      using Some q ni hn reg live pn
      by (simp add: mergeNext_def deref_def Let_def delete_conv')
  next
    case False
    show ?thesis
    proof (cases ?NextList)
      case None
      then show ?thesis
        using Some q ni hn reg live False
        by (simp add: mergeNext_def deref_def Let_def)
    next
      case (Some prev)
      then have "spanList (objs pc) (Some prev) xs"
        using sl by simp
      from unlinkSpan_total [OF this hn] obtain h' b where
        u: "unlinkSpan (objs pc) prev n = Some (Inr (h', b))" and
        keep: "\<forall>j s. objs pc j = Some s \<longrightarrow> (\<exists>s'. h' j = Some s' \<and> sizePages s' = sizePages s)"
        by blast
      from keep live obtain s' where hi: "h' i = Some s'" by blast
      from keep hn obtain ns' where hn': "h' n = Some ns'" by blast
      show ?thesis
        using \<open>map_of (SpanMap pc) nextAddr = Some q\<close> q ni hn reg False Some u hi hn' pn
        by (cases b) (simp_all add: mergeNext_def deref_def Let_def delete_conv')
    qed
  qed
qed

text \<open>
  Claim C7, amended. A span that \<open>deallocateSpan\<close> puts on a free list keeps its entry in
  \<open>SpanMap_\<close>: when \<open>ptr\<close> is registered for a live span, and the successor address
  \<open>ptr + k * PAGE_SIZE\<close> is either not registered or registered for another live span
  whose free list is a proper null-terminated list, \<open>deallocateSpan(ptr, k)\<close> returns,
  the span is the head of \<open>FreeSpans_\<close> at its page count, and \<open>SpanMap_[ptr]\<close> is still
  that span.
\<close>

theorem released_span_stays_registered:
  assumes reg: "map_of (SpanMap pc) ptr = Some (Some i)"
    and live: "objs pc i = Some s"
    and succ: "case map_of (SpanMap pc) (ptr + k * PAGE_SIZE) of
                 None \<Rightarrow> True
               | Some q \<Rightarrow> (\<exists>n ns xs. q = Some n \<and> n \<noteq> i \<and> objs pc n = Some ns \<and>
                    spanList (objs pc) (subscript_val (FreeSpans pc) (sizePages ns)) xs)"
  shows "\<exists>pc' s'. deallocateSpan pc ptr k = Some (Inr pc') \<and> objs pc' i = Some s' \<and>
           map_of (FreeSpans pc') (sizePages s') = Some (Some i) \<and>
           map_of (SpanMap pc') ptr = Some (Some i)"
proof -
  from mergeNext_ok [OF reg live succ] obtain pc1 s1 where
    m: "mergeNext pc (Some i) (ptr + k * PAGE_SIZE) = Some (Inr pc1)" and
    l1: "objs pc1 i = Some s1" and r1: "map_of (SpanMap pc1) ptr = Some (Some i)"
    by blast
  from pushFree_ok [OF l1] obtain pc' s' where
    p: "pushFree pc1 (Some i) = Inr pc'" and l2: "objs pc' i = Some s'" and
    f: "map_of (FreeSpans pc') (sizePages s') = Some (Some i)" and
    sm: "SpanMap pc' = SpanMap pc1"
    by blast
  have "deallocateSpan pc ptr k = Some (Inr pc')"
    using reg m p by (simp add: deallocateSpan_def)
  then show ?thesis
    using l2 f r1 sm by simp
qed

theorem released_span_stays_registered_witness:
  "map_of (SpanMap adjacentPageCache) 0x10000 = Some (Some 1) \<and>
   map_of (SpanMap adjacentPageCache) (0x10000 + 1 * PAGE_SIZE) = Some (Some 0) \<and>
   spanList (objs adjacentPageCache) (subscript_val (FreeSpans adjacentPageCache) 1) [0] \<and>
   (\<exists>pc' s'. deallocateSpan adjacentPageCache 0x10000 1 = Some (Inr pc') \<and>
      objs pc' 1 = Some s' \<and> map_of (FreeSpans pc') (sizePages s') = Some (Some 1) \<and>
      map_of (SpanMap pc') 0x10000 = Some (Some 1))"
proof -
  have a: "map_of (SpanMap adjacentPageCache) 0x10000 = Some (Some 1)"
    by (simp add: adjacentPageCache_def)
  have b: "objs adjacentPageCache 1 = Some \<lparr>PageAddr = 0x10000, sizePages = 1, nextSpan = None\<rparr>"
    by (simp add: adjacentPageCache_def)
  have n: "map_of (SpanMap adjacentPageCache) (0x10000 + 1 * PAGE_SIZE) = Some (Some 0)"
    by (simp add: adjacentPageCache_def PAGE_SIZE_def)
  have l: "spanList (objs adjacentPageCache) (subscript_val (FreeSpans adjacentPageCache) 1) [0]"
    by (simp add: adjacentPageCache_def subscript_val_def)
  have c: "case map_of (SpanMap adjacentPageCache) (0x10000 + 1 * PAGE_SIZE) of
             None \<Rightarrow> True
           | Some q \<Rightarrow> (\<exists>n ns xs. q = Some n \<and> n \<noteq> 1 \<and> objs adjacentPageCache n = Some ns \<and>
                spanList (objs adjacentPageCache)
                  (subscript_val (FreeSpans adjacentPageCache) (sizePages ns)) xs)"
  proof -
    have "objs adjacentPageCache 0 = Some \<lparr>PageAddr = 0x11000, sizePages = 1, nextSpan = None\<rparr>"
      by (simp add: adjacentPageCache_def)
    then have "\<exists>n ns xs. Some 0 = Some n \<and> n \<noteq> 1 \<and> objs adjacentPageCache n = Some ns \<and>
        spanList (objs adjacentPageCache)
          (subscript_val (FreeSpans adjacentPageCache) (sizePages ns)) xs"
      using l by (intro exI [of _ 0] exI [of _ "\<lparr>PageAddr = 0x11000, sizePages = 1, nextSpan = None\<rparr>"]
          exI [of _ "[0]"]) simp
    then show ?thesis
      unfolding n by simp
  qed
  show ?thesis
    using a n l released_span_stays_registered [OF a b c] by simp
qed

lemma fold_least:
  "fold (\<lambda>e b. if fst e < fst b then e else b) cs (c :: size_t \<times> 'v) \<in> set (c # cs) \<and>
   (\<forall>e \<in> set (c # cs). fst (fold (\<lambda>e b. if fst e < fst b then e else b) cs c) \<le> fst e)"
proof (induction cs arbitrary: c)
  case Nil
  then show ?case by simp
next
  case (Cons d cs)
  show ?case
  proof (cases "fst d < fst c")
    case True
    then show ?thesis using Cons.IH [of d] by (auto intro: order.trans less_imp_le)
  next
    case False
    then show ?thesis using Cons.IH [of c] by (auto simp: not_less intro: order.trans)
  qed
qed

text \<open>\<open>lower_bound\<close> yields an entry of the map with the least key that is not below
  \<open>k\<close>.\<close>

lemma lower_bound_least:
  assumes "lower_bound m k = Some (key, v)"
  shows "(key, v) \<in> set m \<and> k \<le> key \<and> (\<forall>e \<in> set m. k \<le> fst e \<longrightarrow> key \<le> fst e)"
proof (cases "filter (\<lambda>e. k \<le> fst e) m")
  case Nil
  then show ?thesis using assms by (simp add: lower_bound_def)
next
  case (Cons c cs)
  let ?r = "fold (\<lambda>e b. if fst e < fst b then e else b) cs c"
  have r: "?r = (key, v)" using assms Cons by (simp add: lower_bound_def)
  have s: "set (c # cs) = {e \<in> set m. k \<le> fst e}"
    using Cons by (metis set_filter)
  from fold_least [of cs c] have "?r \<in> set (c # cs)" and "\<forall>e \<in> set (c # cs). fst ?r \<le> fst e"
    by blast+
  then show ?thesis unfolding r s by auto
qed

text \<open>When the entry that \<open>lower_bound\<close> finds has a live span at its head,
  \<open>allocateSpan\<close> returns the base of that span, registers it in \<open>SpanMap_\<close>, and on a
  split leaves it with \<open>k\<close> pages and puts a new span for the rest at the head of the
  free list of the remaining page count.\<close>

lemma allocateSpan_found:
  assumes lb: "lower_bound (FreeSpans pc) k = Some (key, Some i)"
    and live: "objs pc i = Some s" and old: "i \<noteq> fresh pc"
  shows "\<exists>pc'. allocateSpan mmap pc mem k = Inr (PageAddr s, pc', mem) \<and>
           map_of (SpanMap pc') (PageAddr s) = Some (Some i) \<and>
           (if k < sizePages s then
              objs pc' i = Some (s\<lparr>sizePages := k\<rparr>) \<and>
              (\<exists>nx. objs pc' (fresh pc) =
                 Some \<lparr>PageAddr = PageAddr s + k * PAGE_SIZE, sizePages = sizePages s - k,
                       nextSpan = nx\<rparr>) \<and>
              map_of (FreeSpans pc') (sizePages s - k) = Some (Some (fresh pc))
            else objs pc' = objs pc)"
  using lb live old
  by (simp add: allocateSpan_def deref_def Let_def update_conv')

text \<open>
  Claim C6 on the state that the simplest forward merge leaves behind. Two adjacent
  one-page spans are allocated and released, the upper first; the merge empties the list
  of \<open>FreeSpans_[1]\<close> and keeps the key with a null head, beside the merged two-page span
  under key 2. \<open>allocateSpan(1)\<close> then finds the key 1 by \<open>lower_bound\<close> and reads
  \<open>span->next\<close> through the null head; the claim has it take the two-page span.
\<close>

theorem allocateSpan_after_merge:
  "(case runPageCache (initPageCache, zeroMemory)
           [AllocateSpan (mmapAt 0x11000) 1, AllocateSpan (mmapAt 0x10000) 1,
            DeallocateSpan 0x11000 1, DeallocateSpan 0x10000 1] of
      Some (Inr (pc, m)) \<Rightarrow>
        FreeSpans pc = [(1, None), (2, Some 1)] \<and>
        objs pc 1 = Some \<lparr>PageAddr = 0x10000, sizePages = 2, nextSpan = None\<rparr> \<and>
        allocateSpan (mmapAt 0x50000) pc m 1 = Inl NullDeref
    | _ \<Rightarrow> False)"
  by (simp add: pc_defs)

section \<open>ThreadCache: the spill\<close>

lemma lseg_upd_notin: "u \<notin> set xs \<Longrightarrow> lseg (m(u := v)) a xs b = lseg m a xs b"
  by (induction xs arbitrary: a) auto

lemma lseg_nonnull: "lseg m a xs b \<Longrightarrow> 0 \<notin> set xs"
  by (induction xs arbitrary: a) auto

lemma lseg_head: "lseg m a xs b \<Longrightarrow> xs \<noteq> [] \<Longrightarrow> a = hd xs \<and> a \<noteq> 0"
  by (cases xs) auto

lemma lseg_drop: "lseg m a xs b \<Longrightarrow> r < length xs \<Longrightarrow> lseg m (xs ! r) (drop r xs) b"
proof (induction r arbitrary: a xs)
  case 0
  then show ?case by (cases xs) auto
next
  case (Suc r)
  then show ?case by (cases xs) auto
qed

lemma lseg_next: "lseg m a xs b \<Longrightarrow> Suc r < length xs \<Longrightarrow> m (xs ! r) = xs ! Suc r"
proof (induction r arbitrary: a xs)
  case 0
  then show ?case by (cases xs; cases "tl xs") auto
next
  case (Suc r)
  then show ?case by (cases xs) auto
qed

lemma splitWalk_lseg:
  "lseg m a xs b \<Longrightarrow> r < length xs \<Longrightarrow> splitWalk m r i a = Inr (xs ! r, None)"
proof (induction r arbitrary: a xs i)
  case 0
  then show ?case by (cases xs) auto
next
  case (Suc r)
  then obtain x y ys where xs: "xs = x # y # ys"
    by (cases xs; cases "tl xs") auto
  with Suc.prems have "a = x" "x \<noteq> 0" "m x = y" "y \<noteq> 0" and tl: "lseg m y (y # ys) b"
    by auto
  moreover have "r < length (y # ys)" using Suc.prems xs by simp
  ultimately show ?case using Suc.IH [OF tl] xs by simp
qed

lemma rangeEnd_lseg:
  "lseg m a xs 0 \<Longrightarrow> xs \<noteq> [] \<Longrightarrow> length xs - 1 \<le> r \<Longrightarrow> rangeEnd m r a = last xs"
proof (induction r arbitrary: a xs)
  case 0
  then show ?case by (cases xs) auto
next
  case (Suc r)
  then obtain x ys where xs: "xs = x # ys" by (cases xs) auto
  show ?case
  proof (cases ys)
    case Nil
    then show ?thesis using Suc.prems xs by simp
  next
    case (Cons y zs)
    then have "m x = y" "y \<noteq> 0" and tl: "lseg m y ys 0" using Suc.prems xs by auto
    moreover have "length ys - 1 \<le> r" using Suc.prems xs by simp
    ultimately show ?thesis using Suc.IH [OF tl] xs Cons Suc.prems by simp
  qed
qed

lemma lseg_splice:
  "lseg m a xs 0 \<Longrightarrow> distinct xs \<Longrightarrow> xs \<noteq> [] \<Longrightarrow> lseg (m(last xs := b)) a xs b"
proof (induction xs arbitrary: a)
  case Nil
  then show ?case by simp
next
  case (Cons x xs)
  show ?case
  proof (cases xs)
    case Nil
    then show ?thesis using Cons.prems by simp
  next
    case (Cons y ys)
    then have "last (x # xs) = last xs" "last xs \<noteq> x" using Cons.prems by auto
    then show ?thesis using Cons.prems Cons.IH [of "m x"] Cons by auto
  qed
qed


lemma nth_notin_drop:
  assumes "distinct ys" and "i < r" and "r \<le> length ys"
  shows "ys ! i \<notin> set (drop r ys)"
proof -
  have "distinct (take r ys @ drop r ys)" using assms(1) by simp
  then have "set (take r ys) \<inter> set (drop r ys) = {}" by (simp only: distinct_append)
  moreover have "ys ! i \<in> set (take r ys)"
    using assms(2,3) by (metis in_set_conv_nth length_take min.absorb2 nth_take)
  ultimately show ?thesis by blast
qed

lemma counter_facts:
  fixes c :: "64 word"
  assumes cnt: "unat c = L" and big: "64 \<le> L" and nowrap: "L < 2 ^ 64 - 1"
  shows "unat (c + 1) = L + 1" and "64 < c + 1" and "\<not> c + 1 \<le> 1"
    and "max ((c + 1) div 2) 1 = (c + 1) div 2"
    and "unat ((c + 1) div 2) = (L + 1) div 2"
    and "unat ((c + 1) div 2 - 1) = (L + 1) div 2 - 1"
    and "unat (c + 1 - (c + 1) div 2) = L + 1 - (L + 1) div 2"
    and "0 < (c + 1) div 2"
proof -
  show a: "unat (c + 1) = L + 1"
    using cnt nowrap by (simp add: unat_word_ariths)
  show "64 < c + 1" using a big by (simp add: word_less_nat_alt)
  show "\<not> c + 1 \<le> 1" using a big by (simp add: word_le_nat_alt)
  show d: "unat ((c + 1) div 2) = (L + 1) div 2"
    using a by (simp add: unat_div)
  then have one: "1 \<le> (c + 1) div 2" using big by (simp add: word_le_nat_alt)
  then show "max ((c + 1) div 2) 1 = (c + 1) div 2" by (simp add: max_def)
  show "unat ((c + 1) div 2 - 1) = (L + 1) div 2 - 1"
    using one d by (simp add: unat_sub)
  have "(c + 1) div 2 \<le> c + 1" using a d by (simp add: word_le_nat_alt)
  then show "unat (c + 1 - (c + 1) div 2) = L + 1 - (L + 1) div 2"
    using a d by (simp add: unat_sub)
  show "0 < (c + 1) div 2" using d big by (simp add: word_less_nat_alt)
qed

text \<open>
  What the spill does on a well-formed list. A \<open>deallocate(p, n)\<close> with
  \<open>n \<le> MAX_BYTES\<close> that takes the class list to \<open>N > 64\<close> blocks (\<open>N\<close> after the push,
  the counter agreeing with the list) sets the counter of the class to \<open>N div 2\<close> and
  hands the \<open>N - N div 2\<close> blocks behind the first \<open>N div 2\<close> of the list to CentralCache
  as one chain in front of the class's central list. It also stores the head of that
  chain, and not \<open>p\<close>, as the head of the thread's own list.
\<close>

lemma spill_floor_half:
  assumes n: "n \<le> MAX_BYTES" and p: "p \<noteq> 0"
    and ch: "lseg mem (freeList tc (getIndex n)) xs 0" and dist: "distinct xs" and pn: "p \<notin> set xs"
    and cnt: "unat (freeListSize tc (getIndex n)) = length xs"
    and big: "64 \<le> length xs" and nowrap: "length xs < 2 ^ 64 - 1"
  shows "\<exists>tc' cc' mem'. deallocate tc cc mem p n = Inr (tc', cc', mem') \<and>
           unat (freeListSize tc' (getIndex n)) = (length xs + 1) div 2 \<and>
           centralFreeList cc' (getIndex n) = (p # xs) ! ((length xs + 1) div 2) \<and>
           freeList tc' (getIndex n) = (p # xs) ! ((length xs + 1) div 2) \<and>
           lseg mem' (centralFreeList cc' (getIndex n)) (drop ((length xs + 1) div 2) (p # xs))
             (centralFreeList cc (getIndex n)) \<and>
           length (drop ((length xs + 1) div 2) (p # xs)) = length xs + 1 - (length xs + 1) div 2"
proof -
  define idx where "idx = getIndex n"
  define c where "c = freeListSize tc idx"
  define ys where "ys = p # xs"
  define r where "r = (length xs + 1) div 2"
  define mem1 where "mem1 = mem(p := freeList tc idx)"
  define sn where "sn = ys ! (r - 1)"
  define nn where "nn = ys ! r"
  define zs where "zs = drop r ys"
  define mem2 where "mem2 = mem1(sn := 0)"
  define mem3 where "mem3 = mem2(last zs := centralFreeList cc idx)"
  define tc1 where "tc1 = tc\<lparr>freeList := (freeList tc)(idx := p),
                           freeListSize := (freeListSize tc)(idx := c + 1)\<rparr>"
  define tc2 where "tc2 = tc1\<lparr>freeList := (freeList tc1)(idx := nn),
                           freeListSize := (freeListSize tc1)(idx := (c + 1) div 2)\<rparr>"
  define cc2 where "cc2 = cc\<lparr>centralFreeList := (centralFreeList cc)(idx := nn)\<rparr>"
  have cnt': "unat c = length xs" using cnt by (simp add: c_def idx_def)
  note cf = counter_facts [OF cnt' big nowrap]
  have len: "length ys = length xs + 1" by (simp add: ys_def)
  have r1: "1 \<le> r" and r2: "r < length ys" and r3: "Suc (r - 1) = r"
    using big by (simp_all add: r_def len)
  have dys: "distinct ys" using dist pn by (simp add: ys_def)
  have l1: "lseg mem1 p ys 0"
    using ch p pn by (simp add: mem1_def ys_def idx_def lseg_upd_notin)
  have sw: "splitWalk mem1 (r - 1) 0 p = Inr (sn, None)"
    unfolding sn_def using l1 r2 by (intro splitWalk_lseg) simp_all
  have sn0: "sn \<noteq> 0"
    using lseg_nonnull [OF l1] r2 unfolding sn_def by (metis less_imp_diff_less nth_mem)
  have nxt: "mem1 sn = nn"
    unfolding sn_def nn_def using lseg_next [OF l1, of "r - 1"] r2 r3 by simp
  have nn0: "nn \<noteq> 0"
    using lseg_nonnull [OF l1] r2 unfolding nn_def by (metis nth_mem)
  have zs_ne: "zs \<noteq> []" and zlen: "length zs = length xs + 1 - r"
    using r2 by (simp_all add: zs_def len)
  have lz1: "lseg mem1 nn zs 0"
    unfolding nn_def zs_def using l1 r2 by (rule lseg_drop)
  have "sn \<notin> set zs"
    unfolding sn_def zs_def using dys r1 r2 by (intro nth_notin_drop) simp_all
  then have lz2: "lseg mem2 nn zs 0"
    using lz1 by (simp add: mem2_def lseg_upd_notin)
  have re: "rangeEnd mem2 (length xs + 1 - r - 1) nn = last zs"
    using lz2 zs_ne by (intro rangeEnd_lseg) (simp_all add: zlen)
  have dz: "distinct zs" using dys by (simp add: zs_def)
  have l3: "lseg mem3 nn zs (centralFreeList cc idx)"
    unfolding mem3_def using lz2 dz zs_ne by (rule lseg_splice)
  have il: "\<not> FREE_LIST_SIZE \<le> idx"
    using getIndex_lt [OF n] by (simp add: idx_def not_le)
  have rr: "returnRange cc mem2 nn (c + 1 - (c + 1) div 2) idx = (cc2, mem3)"
    using nn0 il re cf(7) by (simp add: returnRange_def Let_def cc2_def mem3_def r_def)
  have rt: "returnThreadCache tc1 cc mem1 p n = Inr (tc2, cc2, mem3)"
    using cf sw sn0 nxt nn0 rr
    by (simp add: returnThreadCache_def Let_def idx_def [symmetric] tc1_def tc2_def r_def mem2_def)
  have n': "\<not> MAX_BYTES < n" using n by (simp add: not_less)
  have "deallocate tc cc mem p n = Inr (tc2, cc2, mem3)"
    using n' p cf(2) rt
    by (simp add: deallocate_def Let_def idx_def [symmetric] shuoReturnThreadCache_def
        tc1_def mem1_def c_def)
  moreover have "unat (freeListSize tc2 idx) = r" using cf(5) by (simp add: tc2_def r_def)
  moreover have "centralFreeList cc2 idx = ys ! r" by (simp add: cc2_def nn_def)
  moreover have "freeList tc2 idx = ys ! r" by (simp add: tc2_def nn_def)
  moreover have "lseg mem3 (centralFreeList cc2 idx) zs (centralFreeList cc idx)"
    using l3 by (simp add: cc2_def)
  ultimately show ?thesis
    using zlen unfolding idx_def r_def ys_def zs_def by blast
qed

lemma spill_floor_half_example:
  "(16::size_t) \<le> MAX_BYTES \<and>
   lseg fullMemory (freeList fullThreadCache (getIndex 16)) fullBlocks 0 \<and>
   distinct fullBlocks \<and> 0x2000 \<notin> set fullBlocks \<and> length fullBlocks = 64 \<and>
   unat (freeListSize fullThreadCache (getIndex 16)) = length fullBlocks \<and>
   (\<exists>tc' cc' mem'.
      deallocate fullThreadCache initCentralCache fullMemory 0x2000 16 = Inr (tc', cc', mem') \<and>
      unat (freeListSize tc' (getIndex 16)) = 32 \<and>
      centralFreeList cc' (getIndex 16) = (0x2000 # fullBlocks) ! 32 \<and>
      freeList tc' (getIndex 16) = (0x2000 # fullBlocks) ! 32 \<and>
      lseg mem' (centralFreeList cc' (getIndex 16)) (drop 32 (0x2000 # fullBlocks))
        (centralFreeList initCentralCache (getIndex 16)) \<and>
      length (drop 32 (0x2000 # fullBlocks)) = 33)"
proof -
  have a: "(16::size_t) \<le> MAX_BYTES"
    by (simp add: MAX_BYTES_def)
  have b: "(0x2000::addr) \<noteq> 0"
    by simp
  have c: "lseg fullMemory (freeList fullThreadCache (getIndex 16)) fullBlocks 0"
    by code_simp
  have d: "distinct fullBlocks"
    by code_simp
  have e: "0x2000 \<notin> set fullBlocks"
    by code_simp
  have len: "length fullBlocks = 64"
    by (simp add: fullBlocks_def)
  have f: "unat (freeListSize fullThreadCache (getIndex 16)) = length fullBlocks"
    unfolding len by (simp add: fullThreadCache_def getIndex_def ALIGNMENT_def)
  have g: "64 \<le> length fullBlocks" and h: "length fullBlocks < 2 ^ 64 - 1"
    unfolding len by simp_all
  show ?thesis
    using a c d e len f spill_floor_half [OF a b c d e f g h, of initCentralCache]
    by (simp add: len)
qed

text \<open>
  Claim C2 on the thread whose class-1 list holds the 64 blocks \<open>0x1000\<close>, ..., \<open>0x13F0\<close>:
  \<open>deallocate(0x2000, 16)\<close> makes \<open>N = 65\<close>, and the claim has 33 blocks retained on the
  thread's list and 32 shipped. \<open>returnThreadCache\<close> cuts the list behind its first 32
  blocks, sets the counter to 32 and ships the 33 blocks from \<open>0x11F0\<close> on. It then
  stores \<open>nextNode\<close>, the head of the shipped chain, in \<open>_freeList[index]\<close>: the thread's
  list and the central list are the same 33 blocks, and the 32 blocks that were to be
  retained, \<open>0x2000\<close> and \<open>0x1000\<close> to \<open>0x11E0\<close>, are on neither.
\<close>

theorem spill_65_retains_nothing:
  "(case deallocate fullThreadCache initCentralCache fullMemory 0x2000 16 of
      Inr (tc, cc, mem) \<Rightarrow>
        freeListSize tc (getIndex 16) = 32 \<and>
        centralFreeList cc (getIndex 16) = 0x11F0 \<and>
        freeList tc (getIndex 16) = 0x11F0 \<and>
        length (blocksFrom mem 100 (centralFreeList cc (getIndex 16))) = 33 \<and>
        blocksFrom mem 100 (freeList tc (getIndex 16)) =
          blocksFrom mem 100 (centralFreeList cc (getIndex 16)) \<and>
        blocksFrom mem 100 0x2000 = take 32 (0x2000 # fullBlocks) \<and>
        set (take 32 (0x2000 # fullBlocks)) \<inter> set (blocksFrom mem 100 (freeList tc (getIndex 16))) = {}
    | Inl e \<Rightarrow> False)"
  by code_simp

end
